theory Spec2Isabelle
  imports Complex_Main "HOL-Library.Word"
begin

unbundle bit_operations_syntax

chapter \<open>Shadowrun randomizer web front end: persistence, validation and job protocol\<close>

text \<open>
  A shallow embedding of \<^verbatim>\<open>web_interface.js\<close> and \<^verbatim>\<open>web_worker.js\<close>.
  Byte arrays (\<^verbatim>\<open>Uint8Array\<close>) are lists of 8-bit words, JavaScript and Python
  strings are lists of characters, exceptions are values of an outcome type, and the
  page elements and the storage backend that the event handlers mutate are fields of
  one state record that every handler takes and returns.
\<close>

type_synonym u8 = "8 word"

section \<open>Binary-to-text codec\<close>

subsection \<open>\<^verbatim>\<open>bytesToBase64\<close>\<close>

text \<open>
  \<^verbatim>\<open>const alphabet = "ABC...xyz0123456789+/" + "=";\<close> and
  \<^verbatim>\<open>const PADDING_INDEX = alphabet.length - 1;\<close>
\<close>

definition alphabet :: string where
  "alphabet = ''ABCDEFGHIJKLMNOPQRSTUVWXYZabcdefghijklmnopqrstuvwxyz0123456789+/'' @ ''=''"

definition PADDING_INDEX :: nat where
  "PADDING_INDEX = length alphabet - 1"

text \<open>
  \<^verbatim>\<open>alphabet[k]\<close> as it ends up in the joined output: indexing a string out of range
  gives \<^verbatim>\<open>undefined\<close>, which \<^verbatim>\<open>Array.prototype.join\<close> renders as the empty string.
\<close>

definition alphabet_at :: "nat \<Rightarrow> string" where
  "alphabet_at k = (if k < length alphabet then [alphabet ! k] else [])"

text \<open>
  One pass of the loop body for index \<open>i\<close>. The output array \<open>base64\<close> is a list of
  slots, each holding the text that \<^verbatim>\<open>join("")\<close> contributes for it. The four numbers
  are computed first and the slots \<open>4*i .. 4*i+3\<close> are then overwritten with their
  alphabet characters, as the source does. The operands of the bitwise operators are
  bytes, so every intermediate value is below \<open>2^8\<close> and the 32-bit coercion that
  JavaScript applies is the identity; they are computed on \<open>nat\<close>. The reads
  \<open>bytes[3*i+1]\<close> and \<open>bytes[3*i+2]\<close> sit under the source's own length tests and
  \<open>bytes[3*i]\<close> under the loop condition.
\<close>

definition base64_pass :: "u8 list \<Rightarrow> nat \<Rightarrow> string list \<Rightarrow> string list" where
  "base64_pass bytes i base64 =
    (let v0 = drop_bit 2 (unat (bytes ! (3*i + 0)) AND 0xFC);
         v1 = push_bit 4 (unat (bytes ! (3*i + 0)) AND 0x03);
         (v1, v2) =
           (if 3*i + 1 < length bytes
            then (v1 OR drop_bit 4 (unat (bytes ! (3*i + 1)) AND 0xF0),
                  push_bit 2 (unat (bytes ! (3*i + 1)) AND 0x0F))
            else (v1, PADDING_INDEX));
         (v2, v3) =
           (if 3*i + 2 < length bytes
            then (v2 OR drop_bit 6 (unat (bytes ! (3*i + 2)) AND 0xC0),
                  unat (bytes ! (3*i + 2)) AND 0x3F)
            else (v2, PADDING_INDEX))
     in base64[4*i + 0 := alphabet_at v0, 4*i + 1 := alphabet_at v1,
               4*i + 2 := alphabet_at v2, 4*i + 3 := alphabet_at v3])"

text \<open>\<^verbatim>\<open>for (let i = 0; 3*i < bytes.length; i++) { ... }\<close>\<close>

function bytesToBase64_loop :: "u8 list \<Rightarrow> nat \<Rightarrow> string list \<Rightarrow> string list" where
  "bytesToBase64_loop bytes i base64 =
    (if 3*i < length bytes
     then bytesToBase64_loop bytes (i + 1) (base64_pass bytes i base64)
     else base64)"
  by pat_completeness auto
termination
  by (relation "measure (\<lambda>(bytes, i, base64). length bytes - 3*i)") auto

declare bytesToBase64_loop.simps [simp del]

text \<open>
  \<^verbatim>\<open>new Array(4 * Math.ceil(bytes.length / 3))\<close> is an array of that many holes, each of
  which joins as the empty string; \<^verbatim>\<open>base64.join("")\<close> concatenates the slots.
\<close>

definition bytesToBase64 :: "u8 list \<Rightarrow> string" where
  "bytesToBase64 bytes =
    concat (bytesToBase64_loop bytes 0 (replicate (4 * ((length bytes + 2) div 3)) []))"

subsection \<open>\<^verbatim>\<open>base64ToBytes\<close>\<close>

text \<open>
  \<^verbatim>\<open>atob\<close> is a function of the browser, not of this repository. The definitions below
  follow the "forgiving-base64 decode" algorithm of the WHATWG Infra standard, which
  \<^verbatim>\<open>atob\<close> is specified to run: remove ASCII whitespace; if the length is a multiple of
  four, remove one or two trailing \<open>=\<close>; fail if the length is then 1 modulo 4 or if a
  character outside the 64-symbol alphabet remains; otherwise collect six bits per
  character, emit three bytes for every 24 bits, and for a remainder of 12 or 18 bits
  drop the last four or two bits and emit one or two bytes. The result \<open>None\<close> stands
  for the \<^verbatim>\<open>InvalidCharacterError\<close> exception; a result \<open>Some cs\<close> is the binary string,
  given by its code points.
\<close>

definition is_ascii_whitespace :: "char \<Rightarrow> bool" where
  "is_ascii_whitespace c = (of_char c \<in> {0x09, 0x0A, 0x0C, 0x0D, 0x20 :: nat})"

fun index_of :: "'a \<Rightarrow> 'a list \<Rightarrow> nat option" where
  "index_of x [] = None"
| "index_of x (y # ys) = (if x = y then Some 0 else map_option Suc (index_of x ys))"

definition base64_value :: "char \<Rightarrow> nat option" where
  "base64_value c = index_of c (take 64 alphabet)"

definition strip_padding :: "string \<Rightarrow> string" where
  "strip_padding d =
    (if length d mod 4 = 0
     then (case rev d of
             x # y # r \<Rightarrow>
               if x = CHR ''='' then (if y = CHR ''='' then rev r else rev (y # r)) else d
           | [x] \<Rightarrow> if x = CHR ''='' then [] else d
           | [] \<Rightarrow> d)
     else d)"

fun decode_sextets :: "nat list \<Rightarrow> nat list" where
  "decode_sextets (a # b # c # d # rest) =
     (let n = ((a * 64 + b) * 64 + c) * 64 + d
      in [n div 65536, n div 256 mod 256, n mod 256]) @ decode_sextets rest"
| "decode_sextets [a, b, c] =
     (let n = ((a * 64 + b) * 64 + c) div 4 in [n div 256, n mod 256])"
| "decode_sextets [a, b] = [(a * 64 + b) div 16]"
| "decode_sextets _ = []"

fun those_values :: "char list \<Rightarrow> nat list option" where
  "those_values [] = Some []"
| "those_values (c # cs) =
     (case base64_value c of None \<Rightarrow> None
      | Some v \<Rightarrow> map_option ((#) v) (those_values cs))"

definition atob :: "string \<Rightarrow> nat list option" where
  "atob s =
    (let d = strip_padding (filter (\<lambda>c. \<not> is_ascii_whitespace c) s)
     in if length d mod 4 = 1 then None
        else map_option decode_sextets (those_values d))"

text \<open>
  \<^verbatim>\<open>Uint8Array.from(binString, (m) => m.codePointAt(0))\<close>: each code point is stored
  as a byte.
\<close>

definition base64ToBytes :: "string \<Rightarrow> u8 list option" where
  "base64ToBytes base64 = map_option (map of_nat) (atob base64)"

subsection \<open>The encoder's output, group by group\<close>

text \<open>
  The six-bit values and the padding that the encoder produces, by recursion on the
  input in groups of three bytes; the encoder is shown below to compute exactly this.
\<close>

fun sextets :: "u8 list \<Rightarrow> nat list" where
  "sextets (x # y # z # r) =
     [unat x div 4, unat x mod 4 * 16 + unat y div 16,
      unat y mod 16 * 4 + unat z div 64, unat z mod 64] @ sextets r"
| "sextets [x, y] =
     [unat x div 4, unat x mod 4 * 16 + unat y div 16, unat y mod 16 * 4]"
| "sextets [x] = [unat x div 4, unat x mod 4 * 16]"
| "sextets [] = []"

fun pad_of :: "u8 list \<Rightarrow> string" where
  "pad_of (x # y # z # r) = pad_of r"
| "pad_of [x, y] = ''=''"
| "pad_of [x] = ''==''"
| "pad_of [] = []"

definition slots :: "u8 list \<Rightarrow> string list" where
  "slots xs = map (\<lambda>k. [alphabet ! k]) (sextets xs) @ map (\<lambda>c. [c]) (pad_of xs)"

section \<open>Image validator\<close>

text \<open>
  Reading element \<open>i\<close> of a typed array: \<^verbatim>\<open>undefined\<close> (here \<open>None\<close>) outside the
  bounds, the byte otherwise.
\<close>

definition js_index :: "'a list \<Rightarrow> nat \<Rightarrow> 'a option" where
  "js_index xs i = (if i < length xs then Some (xs ! i) else None)"

text \<open>
  \<^verbatim>\<open>romBytes.slice(start, end)\<close> for non-negative arguments: both ends are clamped
  to the length, which is what \<open>take\<close> and \<open>drop\<close> do.
\<close>

definition slice :: "'a list \<Rightarrow> nat \<Rightarrow> nat \<Rightarrow> 'a list" where
  "slice xs first final = take (final - first) (drop first xs)"

text \<open>\<^verbatim>\<open>String.fromCharCode(...codes)\<close> on byte values: one character per byte.\<close>

definition String_fromCharCode :: "u8 list \<Rightarrow> string" where
  "String_fromCharCode codes = map (\<lambda>b. char_of (unat b)) codes"

definition goodName :: string where
  "goodName = ''SHADOWRUN            ''"

definition goodChecksum :: nat where
  "goodChecksum = 0xF834"

text \<open>
  \<^verbatim>\<open>romBytes[0x7FDE] + (romBytes[0x7FDF] << 8)\<close> on possibly undefined operands:
  \<^verbatim>\<open>undefined << 8\<close> is \<open>0\<close>, and \<^verbatim>\<open>undefined + n\<close> is \<^verbatim>\<open>NaN\<close> (here \<open>None\<close>), which
  differs from every number.
\<close>

definition romChecksum_of :: "u8 option \<Rightarrow> u8 option \<Rightarrow> nat option" where
  "romChecksum_of lo hi =
    (case lo of
       None \<Rightarrow> None
     | Some l \<Rightarrow> Some (unat l + push_bit 8 (case hi of None \<Rightarrow> 0 | Some h \<Rightarrow> unat h)))"

definition isValidROM :: "u8 list \<Rightarrow> bool" where
  "isValidROM romBytes =
    (if length romBytes \<noteq> 1048576 then False
     else
       let romName = String_fromCharCode (slice romBytes 0x7FC0 0x7FD5) in
       if romName \<noteq> goodName then False
       else
         let romChecksum =
               romChecksum_of (js_index romBytes 0x7FDE) (js_index romBytes 0x7FDF) in
         if romChecksum \<noteq> Some goodChecksum then False
         else True)"

text \<open>
  The same function with every element read checked: the result is \<open>None\<close> as soon
  as an offset outside the array is read, and \<open>Some\<close> of the boolean otherwise. The
  slice reads the offsets \<open>0x7FC0 .. 0x7FD4\<close> one by one.
\<close>

definition isValidROM_checked :: "u8 list \<Rightarrow> bool option" where
  "isValidROM_checked romBytes =
    (if length romBytes \<noteq> 1048576 then Some False
     else
       case those (map (js_index romBytes) [0x7FC0 ..< 0x7FD5]) of
         None \<Rightarrow> None
       | Some nameBytes \<Rightarrow>
           if String_fromCharCode nameBytes \<noteq> goodName then Some False
           else
             (case js_index romBytes 0x7FDE of
                None \<Rightarrow> None
              | Some lo \<Rightarrow>
                  (case js_index romBytes 0x7FDF of
                     None \<Rightarrow> None
                   | Some hi \<Rightarrow>
                       if unat lo + push_bit 8 (unat hi) \<noteq> goodChecksum then Some False
                       else Some True)))"

text \<open>
  The two header fields as the specification names them: the 21 bytes of the name
  \<open>SHADOWRUN\<close> followed by 12 spaces, in ASCII, and a 16-bit little-endian integer.
\<close>

definition name_field_bytes :: "u8 list" where
  "name_field_bytes =
    [0x53, 0x48, 0x41, 0x44, 0x4F, 0x57, 0x52, 0x55, 0x4E,
     0x20, 0x20, 0x20, 0x20, 0x20, 0x20, 0x20, 0x20, 0x20, 0x20, 0x20, 0x20]"

definition le16 :: "u8 \<Rightarrow> u8 \<Rightarrow> nat" where
  "le16 lo hi = unat lo + 256 * unat hi"

definition field_offsets :: "nat set" where
  "field_offsets = {0x7FC0 ..< 0x7FD5} \<union> {0x7FDE, 0x7FDF}"

text \<open>A well-formed image, zero outside the two fields, for concrete evaluation.\<close>

definition sample_rom :: "u8 list" where
  "sample_rom =
    replicate 0x7FC0 0 @ name_field_bytes @ replicate 9 0 @ [0x34, 0xF8] @ replicate 0xF8020 0"

section \<open>Persistent image store\<close>

text \<open>
  \<^verbatim>\<open>storageWrapper\<close> prefixes every key with \<^verbatim>\<open>shadowrun_randomizer___\<close> and hands the
  call to \<^verbatim>\<open>window.localStorage\<close>. The contents of the backend are a map from keys to
  text; \<^verbatim>\<open>getItem\<close> answers \<^verbatim>\<open>null\<close> (here \<open>None\<close>) for an absent key.
\<close>

type_synonym storage = "string \<rightharpoonup> string"

datatype js_error = DOMException string | OtherError string

definition keyNamePrefix :: string where
  "keyNamePrefix = ''shadowrun_randomizer''"

definition prefixed :: "string \<Rightarrow> string" where
  "prefixed keyName = keyNamePrefix @ ''___'' @ keyName"

text \<open>
  The backend's \<^verbatim>\<open>setItem\<close> belongs to the browser. It is a parameter of the model:
  for the present contents, a key and a value it answers with the exception it throws,
  if any, and the contents it leaves behind.
\<close>

type_synonym backend_setItem = "storage \<Rightarrow> string \<Rightarrow> string \<Rightarrow> js_error option \<times> storage"

definition getItem :: "storage \<Rightarrow> string \<Rightarrow> string option" where
  "getItem backend keyName = backend (prefixed keyName)"

definition setItem ::
  "backend_setItem \<Rightarrow> storage \<Rightarrow> string \<Rightarrow> string \<Rightarrow> js_error option \<times> storage" where
  "setItem backend_set backend keyName keyValue = backend_set backend (prefixed keyName) keyValue"

definition removeItem :: "storage \<Rightarrow> string \<Rightarrow> storage" where
  "removeItem backend keyName = backend((prefixed keyName) := None)"

text \<open>
  Two backends for concrete evaluation: one that stores a value unless it is longer
  than a quota, throwing \<^verbatim>\<open>QuotaExceededError\<close> and changing nothing otherwise, and one
  that always throws a given exception.
\<close>

definition quota_backend :: "nat \<Rightarrow> backend_setItem" where
  "quota_backend quota backend k v =
    (if quota < length v then (Some (DOMException ''QuotaExceededError''), backend)
     else (None, backend(k \<mapsto> v)))"

definition throwing_backend :: "js_error \<Rightarrow> backend_setItem" where
  "throwing_backend e backend k v = (Some e, backend)"

section \<open>Page state and event handlers\<close>

text \<open>The message posted to the worker: the \<^verbatim>\<open>randomizerArgs\<close> map of \<^verbatim>\<open>generate\<close>.\<close>

record randomizerArgs =
  args_romBytes :: "u8 list"
  args_seedString :: string
  args_itemDuplication :: bool
  args_spoilerLog :: bool

text \<open>
  Everything the handlers read or write: the storage backend, the page elements they
  touch (class lists as sets of class names, texts, flags), and the messages posted to
  the worker so far. The text of the status icon is given by its UTF-16 code units.
\<close>

record ui_state =
  localStorage :: storage
  statusIcon_classList :: "string set"
  statusIcon_innerText :: "nat list"
  statusMessage_innerText :: string
  fileButton_classList :: "string set"
  fileButton_innerText :: string
  generate_disabled :: bool
  generateSpinner_classList :: "string set"
  generateText_innerText :: string
  seed_value :: string
  itemDuplication_checked :: bool
  spoilerLog_checked :: bool
  worker_posted :: "randomizerArgs list"

text \<open>
  A handler either returns or throws; in both cases the state it has reached remains.
\<close>

datatype 'a outcome = Returned 'a | Threw js_error 'a

fun state_of :: "'a outcome \<Rightarrow> 'a" where
  "state_of (Returned s) = s"
| "state_of (Threw e s) = s"

subsection \<open>\<^verbatim>\<open>updateStatusMessage(message = "", textClass = "")\<close>\<close>

definition updateStatusMessage :: "string \<Rightarrow> string \<Rightarrow> ui_state \<Rightarrow> ui_state" where
  "updateStatusMessage message textClass s =
    (let textClasses = {''text-success'', ''text-danger''};
         s = s\<lparr>statusIcon_classList := statusIcon_classList s - textClasses\<rparr>;
         s =
           (if textClass = ''success'' then
              s\<lparr>statusIcon_classList := insert ''text-success'' (statusIcon_classList s) - {''d-none''},
                statusIcon_innerText := [0x2713]\<rparr>
            else if textClass = ''danger'' then
              s\<lparr>statusIcon_classList := insert ''text-danger'' (statusIcon_classList s) - {''d-none''},
                statusIcon_innerText := [0x2717]\<rparr>
            else
              s\<lparr>statusIcon_classList := insert ''d-none'' (statusIcon_classList s),
                statusIcon_innerText := []\<rparr>)
     in s\<lparr>statusMessage_innerText := message\<rparr>)"

subsection \<open>\<^verbatim>\<open>updateFileButton\<close>\<close>

text \<open>
  \<^verbatim>\<open>base64ToBytes\<close> throws when the stored text is not decodable; the exception is
  not caught here and leaves the handler.
\<close>

definition updateFileButton :: "ui_state \<Rightarrow> ui_state outcome" where
  "updateFileButton s =
    (let buttonClasses = {''btn-success'', ''btn-danger'', ''btn-warning''};
         s = s\<lparr>fileButton_classList := fileButton_classList s - buttonClasses\<rparr>
     in case getItem (localStorage s) ''rom_base64'' of
          Some romBase64 \<Rightarrow>
            (case base64ToBytes romBase64 of
               None \<Rightarrow> Threw (DOMException ''InvalidCharacterError'') s
             | Some romBytes \<Rightarrow>
                 if isValidROM romBytes then
                   Returned (s\<lparr>fileButton_classList := insert ''btn-success'' (fileButton_classList s),
                               fileButton_innerText := ''Valid ROM selected'',
                               generate_disabled := False\<rparr>)
                 else
                   Returned (s\<lparr>fileButton_classList := insert ''btn-danger'' (fileButton_classList s),
                               fileButton_innerText := ''Invalid ROM selected'',
                               generate_disabled := True\<rparr>))
        | None \<Rightarrow>
            Returned (s\<lparr>fileButton_classList := insert ''btn-warning'' (fileButton_classList s),
                        fileButton_innerText := ''No ROM selected'',
                        generate_disabled := True\<rparr>))"

subsection \<open>\<^verbatim>\<open>changeFileName\<close>\<close>

text \<open>
  The handler is asynchronous: it clears the status, then waits for the bytes of the
  chosen file. \<open>changeFileName_resume\<close> is the part that runs once the bytes are
  there, from whatever state the page is in by then; \<open>changeFileName\<close> is the whole
  handler when nothing else runs in between. \<^verbatim>\<open>e instanceof DOMException && e.name ===
  "QuotaExceededError"\<close> is the test \<open>is_quota_exceeded\<close>.
\<close>

definition is_quota_exceeded :: "js_error \<Rightarrow> bool" where
  "is_quota_exceeded e =
    (case e of DOMException name \<Rightarrow> name = ''QuotaExceededError'' | OtherError _ \<Rightarrow> False)"

definition changeFileName_resume ::
  "backend_setItem \<Rightarrow> u8 list \<Rightarrow> ui_state \<Rightarrow> ui_state outcome" where
  "changeFileName_resume backend_set fileBytes s =
    (case setItem backend_set (localStorage s) ''rom_base64'' (bytesToBase64 fileBytes) of
       (None, backend) \<Rightarrow> updateFileButton (s\<lparr>localStorage := backend\<rparr>)
     | (Some e, backend) \<Rightarrow>
         let s = s\<lparr>localStorage := backend\<rparr> in
         if is_quota_exceeded e then
           let s = s\<lparr>localStorage := removeItem (localStorage s) ''rom_base64''\<rparr>;
               s = updateStatusMessage ''Could not store ROM: localStorage quota exceeded''
                     ''danger'' s
           in updateFileButton s
         else Threw e s)"

definition changeFileName ::
  "backend_setItem \<Rightarrow> u8 list list \<Rightarrow> ui_state \<Rightarrow> ui_state outcome" where
  "changeFileName backend_set fileList s =
    (let s = updateStatusMessage [] [] s in
     if 0 < length fileList then changeFileName_resume backend_set (fileList ! 0) s
     else Returned s)"

subsection \<open>\<^verbatim>\<open>clearFileName\<close>\<close>

definition clearFileName :: "ui_state \<Rightarrow> ui_state outcome" where
  "clearFileName s =
    (let s = updateStatusMessage [] [] s;
         s = s\<lparr>localStorage := removeItem (localStorage s) ''rom_base64''\<rparr>
     in updateFileButton s)"

subsection \<open>\<^verbatim>\<open>newSeed\<close>\<close>

text \<open>
  \<^verbatim>\<open>Math.trunc(Math.random() * 2**32)\<close>, then the number is written to the input
  element as text. The random number is a double in \<open>[0, 1)\<close>; multiplying a double
  by \<open>2^32\<close> only changes its exponent, so the product is the exact real product and
  the value is modelled as a real number \<open>r\<close>, a parameter of the handler. A Number
  that is an integer below \<open>10^21\<close> in absolute value is written in plain decimal
  digits, with a leading minus sign when negative.
\<close>

definition Math_trunc :: "real \<Rightarrow> int" where
  "Math_trunc x = (if x < 0 then \<lceil>x\<rceil> else \<lfloor>x\<rfloor>)"

definition digit_char :: "nat \<Rightarrow> char" where
  "digit_char d = char_of (48 + d)"

fun decimal_digits :: "nat \<Rightarrow> string" where
  "decimal_digits n =
    (if n < 10 then [digit_char n] else decimal_digits (n div 10) @ [digit_char (n mod 10)])"

declare decimal_digits.simps [simp del]

definition Number_toString :: "int \<Rightarrow> string" where
  "Number_toString n =
    (if n < 0 then CHR ''-'' # decimal_digits (nat (- n)) else decimal_digits (nat n))"

definition newSeed :: "real \<Rightarrow> ui_state \<Rightarrow> ui_state" where
  "newSeed r s =
    (let s = updateStatusMessage [] [] s
     in s\<lparr>seed_value := Number_toString (Math_trunc (r * 2 ^ 32))\<rparr>)"

subsection \<open>\<^verbatim>\<open>generate\<close>\<close>

text \<open>
  \<^verbatim>\<open>String.prototype.trim\<close> removes white space and line terminators from both ends;
  among 8-bit characters these are the codes 9 to 13, 32 and 160. The regular
  expression \<^verbatim>\<open>^[0-9]+$\<close> (no flags) accepts exactly the non-empty texts made of the
  characters \<open>0\<close> to \<open>9\<close>. The worker handle is assigned when the page starts,
  before any handler can run; \<^verbatim>\<open>worker.postMessage\<close> appends the message to the list of
  messages posted so far.
\<close>

definition is_js_whitespace :: "char \<Rightarrow> bool" where
  "is_js_whitespace c = (of_char c \<in> {9, 10, 11, 12, 13, 32, 160 :: nat})"

definition trim :: "string \<Rightarrow> string" where
  "trim s = rev (dropWhile is_js_whitespace (rev (dropWhile is_js_whitespace s)))"

definition is_digit :: "char \<Rightarrow> bool" where
  "is_digit c = (48 \<le> (of_char c :: nat) \<and> (of_char c :: nat) \<le> 57)"

definition integerRegex_test :: "string \<Rightarrow> bool" where
  "integerRegex_test s = (s \<noteq> [] \<and> list_all is_digit s)"

definition generate :: "ui_state \<Rightarrow> ui_state outcome" where
  "generate s =
    (let s = updateStatusMessage [] [] s in
     case getItem (localStorage s) ''rom_base64'' of
       None \<Rightarrow> Returned (updateStatusMessage ''No ROM selected'' ''danger'' s)
     | Some romBase64 \<Rightarrow>
         (case base64ToBytes romBase64 of
            None \<Rightarrow> Threw (DOMException ''InvalidCharacterError'') s
          | Some romBytes \<Rightarrow>
              if \<not> isValidROM romBytes then
                Returned (updateStatusMessage ''Invalid ROM selected'' ''danger'' s)
              else
                let seed = trim (seed_value s) in
                if \<not> integerRegex_test seed then
                  Returned (updateStatusMessage ''Seed must be a number'' ''danger'' s)
                else
                  let s = s\<lparr>generate_disabled := True,
                             generateSpinner_classList := generateSpinner_classList s - {''d-none''},
                             generateText_innerText := ''Generating...''\<rparr>;
                      s = updateStatusMessage
                            ''Generation in progress, this may take some time...'' [] s;
                      randomizerArgs =
                        \<lparr>args_romBytes = romBytes, args_seedString = seed,
                         args_itemDuplication = itemDuplication_checked s,
                         args_spoilerLog = spoilerLog_checked s\<rparr>
                  in Returned (s\<lparr>worker_posted := worker_posted s @ [randomizerArgs]\<rparr>)))"

section \<open>Worker: job dispatcher and result packager\<close>

subsection \<open>The argument vector of \<^verbatim>\<open>runRandomizer\<close>\<close>

definition romFileName :: string where
  "romFileName = ''shadowrun.sfc''"

text \<open>
  The vector is built by a sequence of \<^verbatim>\<open>push\<close> calls; \<^verbatim>\<open>if (seedString)\<close> tests a
  string, which is truthy exactly when it is not empty.
\<close>

definition push :: "'a list \<Rightarrow> 'a \<Rightarrow> 'a list" where
  "push xs x = xs @ [x]"

definition build_mockArgv :: "string \<Rightarrow> bool \<Rightarrow> bool \<Rightarrow> string list" where
  "build_mockArgv seedString itemDuplication spoilerLog =
    (let mockArgv = [''shadowrun_randomizer.py''];
         mockArgv = push mockArgv ''--dry-run'';
         mockArgv =
           (if seedString \<noteq> [] then push (push mockArgv ''--seed'') seedString else mockArgv);
         mockArgv =
           (if itemDuplication then push mockArgv ''--allow-item-duplication'' else mockArgv);
         mockArgv = (if spoilerLog then push mockArgv ''--spoiler-log'' else mockArgv);
         mockArgv = push mockArgv ''--'';
         mockArgv = push mockArgv romFileName
     in mockArgv)"

text \<open>
  The vector as the specification words it: the dry-run flag, the optional seed,
  duplication and log arguments, then the image's path.
\<close>

definition spec_argument_vector :: "string \<Rightarrow> bool \<Rightarrow> bool \<Rightarrow> string list" where
  "spec_argument_vector seedString itemDuplication spoilerLog =
    [''--dry-run''] @
    (if seedString \<noteq> [] then [''--seed'', seedString] else []) @
    (if itemDuplication then [''--allow-item-duplication''] else []) @
    (if spoilerLog then [''--spoiler-log''] else []) @
    [romFileName]"

subsection \<open>The embedded Python: basename and archive\<close>

text \<open>
  \<^verbatim>\<open>str.rpartition(sep)\<close> for a one-character separator: the text before the last
  occurrence, the separator, the text after it; two empty strings and the whole text
  when the separator does not occur.
\<close>

definition rpartition :: "string \<Rightarrow> char \<Rightarrow> string \<times> string \<times> string" where
  "rpartition s sep =
    (case dropWhile (\<lambda>c. c \<noteq> sep) (rev s) of
       [] \<Rightarrow> ([], [], s)
     | d # front \<Rightarrow> (rev front, [d], rev (takeWhile (\<lambda>c. c \<noteq> sep) (rev s))))"

text \<open>
  \<^verbatim>\<open>basename, dot, extension = module.outFileName.rpartition(".")\<close>, then
  \<^verbatim>\<open>if basename and extension: newBasename = basename\<close>, else the name itself.
\<close>

definition newBasename :: "string \<Rightarrow> string" where
  "newBasename outFileName =
    (case rpartition outFileName CHR ''.'' of
       (basename, dot, extension) \<Rightarrow>
         if basename \<noteq> [] \<and> extension \<noteq> [] then basename else outFileName)"









section \<open>Auxiliary notions for the statements\<close>

text \<open>
  The state a handler leaves when it has shown \<open>message\<close> as an error and touched
  nothing else: the icon carries \<open>text-danger\<close>, is visible and shows the cross.
\<close>

definition danger_shown :: "string \<Rightarrow> ui_state \<Rightarrow> ui_state" where
  "danger_shown message s =
    s\<lparr>statusIcon_classList :=
        insert ''text-danger''
          (statusIcon_classList s - {''text-success'', ''text-danger'', ''d-none''}),
      statusIcon_innerText := [0x2717],
      statusMessage_innerText := message\<rparr>"

text \<open>
  The visible state of the file button and the submission control: which of the three
  button classes is set, the button's text, and whether submission is disabled.
\<close>

definition file_view :: "ui_state \<Rightarrow> string set \<times> string \<times> bool" where
  "file_view s =
    (fileButton_classList s \<inter> {''btn-success'', ''btn-danger'', ''btn-warning''},
     fileButton_innerText s, generate_disabled s)"

text \<open>
  A page as it is after loading with nothing stored, and the same page with the
  encoding of a byte sequence stored under the image key.
\<close>

definition page0 :: ui_state where
  "page0 =
    \<lparr>localStorage = Map.empty,
     statusIcon_classList = {''d-none''}, statusIcon_innerText = [],
     statusMessage_innerText = [],
     fileButton_classList = {''btn'', ''btn-warning''},
     fileButton_innerText = ''No ROM selected'',
     generate_disabled = True,
     generateSpinner_classList = {''d-none''},
     generateText_innerText = ''Generate'',
     seed_value = ''1234'',
     itemDuplication_checked = False, spoilerLog_checked = False,
     worker_posted = []\<rparr>"

definition with_record :: "u8 list \<Rightarrow> ui_state" where
  "with_record bytes =
    page0\<lparr>localStorage := [prefixed ''rom_base64'' \<mapsto> bytesToBase64 bytes]\<rparr>"

section \<open>Properties of the codec\<close>

subsection \<open>Bit operations on byte values as division and remainder\<close>

lemma mask6_numeral: "(63::nat) = mask 6" by (simp add: mask_eq_exp_minus_1)
lemma mask4_numeral: "(15::nat) = mask 4" by (simp add: mask_eq_exp_minus_1)
lemma mask2_numeral: "(3::nat) = mask 2" by (simp add: mask_eq_exp_minus_1)

lemma and_63_mod: "(x::nat) AND 0x3F = x mod 64"
  by (simp add: mask6_numeral flip: take_bit_eq_mask) (simp add: take_bit_eq_mod)

lemma and_15_mod: "(x::nat) AND 0x0F = x mod 16"
  by (simp add: mask4_numeral flip: take_bit_eq_mask) (simp add: take_bit_eq_mod)

lemma and_3_mod: "(x::nat) AND 0x03 = x mod 4"
  by (simp add: mask2_numeral flip: take_bit_eq_mask) (simp add: take_bit_eq_mod)

lemma enc_v0: "x < 256 \<Longrightarrow> drop_bit 2 ((x::nat) AND 0xFC) = x div 4"
proof -
  assume x: "x < 256"
  have "drop_bit 2 (x AND 0xFC) = drop_bit 2 x AND drop_bit 2 (0xFC::nat)" by simp
  also have "drop_bit 2 (0xFC::nat) = 0x3F" by (simp add: drop_bit_eq_div)
  finally show ?thesis using x by (simp add: and_63_mod drop_bit_eq_div)
qed

lemma enc_v1: "push_bit 4 ((x::nat) AND 0x03) = x mod 4 * 16"
  by (simp only: and_3_mod) (simp add: push_bit_eq_mult)

lemma enc_v1_or: "x < 256 \<Longrightarrow> drop_bit 4 ((x::nat) AND 0xF0) = x div 16"
proof -
  assume x: "x < 256"
  have "drop_bit 4 (x AND 0xF0) = drop_bit 4 x AND drop_bit 4 (0xF0::nat)" by simp
  also have "drop_bit 4 (0xF0::nat) = 0x0F" by (simp add: drop_bit_eq_div)
  finally show ?thesis using x by (simp add: and_15_mod drop_bit_eq_div)
qed

lemma enc_v2: "push_bit 2 ((x::nat) AND 0x0F) = x mod 16 * 4"
  by (simp only: and_15_mod) (simp add: push_bit_eq_mult)

lemma enc_v2_or: "x < 256 \<Longrightarrow> drop_bit 6 ((x::nat) AND 0xC0) = x div 64"
proof -
  assume x: "x < 256"
  have "drop_bit 6 (x AND 0xC0) = drop_bit 6 x AND drop_bit 6 (0xC0::nat)" by simp
  also have "drop_bit 6 (0xC0::nat) = 0x03" by (simp add: drop_bit_eq_div)
  finally show ?thesis using x by (simp add: and_3_mod drop_bit_eq_div)
qed

lemma or_disjoint_add: "b < 2 ^ k \<Longrightarrow> (a::nat) * 2 ^ k OR b = a * 2 ^ k + b"
proof -
  assume b: "b < 2 ^ k"
  then have tb: "take_bit k b = b" by (simp add: take_bit_nat_eq_self)
  have "push_bit k a AND take_bit k b = 0"
    by (rule bit_eqI) (auto simp add: bit_simps)
  then show ?thesis
    by (simp add: tb disjunctive_add_eq_or push_bit_eq_mult)
qed

lemma combine4:
  fixes a1 a0 b1 b0 c1 c0 :: nat
  shows "((a1 * 64 + (a0 * 16 + b1)) * 64 + (b0 * 4 + c1)) * 64 + c0
       = (a1 * 4 + a0) * 65536 + (b1 * 16 + b0) * 256 + (c1 * 64 + c0)"
  by (simp add: algebra_simps)

lemma group_of_four:
  fixes a b c :: nat
  assumes "a < 256" "b < 256" "c < 256"
  defines "n \<equiv> ((a div 4 * 64 + (a mod 4 * 16 + b div 16)) * 64 + (b mod 16 * 4 + c div 64)) * 64 + c mod 64"
  shows "n div 65536 = a" "n div 256 mod 256 = b" "n mod 256 = c"
proof -
  have n: "n = a * 65536 + (b * 256 + c)"
    unfolding n_def by (simp only: combine4 div_mult_mod_eq add.assoc)
  have r: "b * 256 + c < 65536" using assms(2,3) by simp
  show "n div 65536 = a" using r by (simp add: n)
  define m where "m = a * 256 + b"
  have n2: "n = m * 256 + c" by (simp add: n m_def)
  have d: "n div 256 = m" and "n mod 256 = c"
    using assms(3) unfolding n2 by simp_all
  then show "n mod 256 = c" by simp
  show "n div 256 mod 256 = b"
    using assms(2) unfolding d m_def by simp
qed

lemma combine3:
  fixes a1 a0 b1 b0 :: nat
  shows "(a1 * 64 + (a0 * 16 + b1)) * 64 + b0 * 4
       = ((a1 * 4 + a0) * 256 + (b1 * 16 + b0)) * 4"
  by (simp add: algebra_simps)

lemma group_of_three:
  fixes a b :: nat
  assumes "a < 256" "b < 256"
  defines "n \<equiv> ((a div 4 * 64 + (a mod 4 * 16 + b div 16)) * 64 + b mod 16 * 4) div 4"
  shows "n div 256 = a" "n mod 256 = b"
proof -
  have n: "n = a * 256 + b"
    unfolding n_def by (simp only: combine3 div_mult_mod_eq) simp
  show "n div 256 = a" "n mod 256 = b"
    using assms(2) by (simp_all add: n)
qed

lemma combine2:
  fixes a1 a0 :: nat
  shows "a1 * 64 + a0 * 16 = (a1 * 4 + a0) * 16"
  by (simp add: algebra_simps)

lemma group_of_two:
  fixes a :: nat
  shows "(a div 4 * 64 + a mod 4 * 16) div 16 = a"
  by (simp only: combine2 div_mult_mod_eq)


lemma unat_u8_less: "unat (x :: u8) < 256"
  using unsigned_less [of x, where ?'a = nat] by simp

lemma alphabet_at_less: "k < 65 \<Longrightarrow> alphabet_at k = [alphabet ! k]"
  by (simp add: alphabet_at_def alphabet_def)

lemma alphabet_64: "alphabet ! 64 = CHR ''=''"
  by (simp add: alphabet_def)

lemma PADDING_INDEX_64: "PADDING_INDEX = 64"
  by (simp add: PADDING_INDEX_def alphabet_def)

lemma take_update4:
  "k + 4 \<le> length xs \<Longrightarrow>
   take (k + 4) (xs[k := a, k + 1 := b, k + 2 := c, k + 3 := d]) = take k xs @ [a, b, c, d]"
  by (rule nth_equalityI) (auto simp add: nth_append nth_list_update less_Suc_eq numeral_eq_Suc nth_Cons')

lemma length_base64_pass: "length (base64_pass bytes i base64) = length base64"
  by (simp add: base64_pass_def Let_def split: prod.splits)

lemma slots_step:
  assumes "3 * i < length bytes"
  shows "slots (drop (3 * i) bytes) =
         take 4 (slots (drop (3 * i) bytes)) @ slots (drop (3 * (i + 1)) bytes)"
proof -
  have d3: "drop (3 * (i + 1)) bytes = drop 3 (drop (3 * i) bytes)"
    by (simp add: add.commute)
  from assms have "drop (3 * i) bytes \<noteq> []" by simp
  then consider x where "drop (3 * i) bytes = [x]"
    | x y where "drop (3 * i) bytes = [x, y]"
    | x y z r where "drop (3 * i) bytes = x # y # z # r"
    by (metis sextets.cases)
  then show ?thesis
    unfolding d3 by cases (simp_all add: slots_def)
qed


lemma value_bounds:
  fixes x y z :: u8
  shows "unat x div 4 < 65" "unat x mod 4 * 16 < 65"
        "unat x mod 4 * 16 + unat y div 16 < 65"
        "unat y mod 16 * 4 < 65"
        "unat y mod 16 * 4 + unat z div 64 < 65"
        "unat z mod 64 < 65"
  using unat_u8_less [of x] unat_u8_less [of y] unat_u8_less [of z] by simp_all

lemma or_add_16: "b < 16 \<Longrightarrow> (a::nat) * 16 OR b = a * 16 + b"
  using or_disjoint_add [of b 4 a] by simp

lemma or_add_4: "b < 4 \<Longrightarrow> (a::nat) * 4 OR b = a * 4 + b"
  using or_disjoint_add [of b 2 a] by simp

lemma div_bounds:
  fixes y :: u8
  shows "unat y div 16 < 16" "unat y div 64 < 4"
  using unat_u8_less [of y] by simp_all


subsection \<open>The loop fills the array with the groups\<close>

lemma pass_take:
  assumes "3 * i < length bytes" and "4 * i + 4 \<le> length base64"
  shows "take (4 * i + 4) (base64_pass bytes i base64) =
         take (4 * i) base64 @ take 4 (slots (drop (3 * i) bytes))"
proof -
  from assms have "drop (3 * i) bytes \<noteq> []" by simp
  then consider x where "drop (3 * i) bytes = [x]"
    | x y where "drop (3 * i) bytes = [x, y]"
    | x y z r where "drop (3 * i) bytes = x # y # z # r"
    by (metis sextets.cases)
  then show ?thesis
  proof cases
    case 1
    have len: "length bytes = 3 * i + 1"
      using arg_cong [OF 1, of length] assms(1) by simp
    have x: "bytes ! (3 * i) = x"
      using nth_drop [of "3 * i" bytes 0] assms(1) by (simp add: 1)
    have P: "base64_pass bytes i base64 =
        base64[4 * i := [alphabet ! (unat x div 4)], 4 * i + 1 := [alphabet ! (unat x mod 4 * 16)],
               4 * i + 2 := ''='', 4 * i + 3 := ''='']"
      apply (simp only: base64_pass_def Let_def enc_v0 [OF unat_u8_less] enc_v1)
      apply (simp add: len x alphabet_at_less value_bounds PADDING_INDEX_64 alphabet_64)
      done
    show ?thesis
      unfolding P using take_update4 [OF assms(2)] by (simp add: slots_def 1)
  next
    case 2
    have len: "length bytes = 3 * i + 2"
      using arg_cong [OF 2, of length] assms(1) by simp
    have x: "bytes ! (3 * i) = x"
      using nth_drop [of "3 * i" bytes 0] assms(1) by (simp add: 2)
    have y: "bytes ! Suc (3 * i) = y"
      using nth_drop [of "3 * i" bytes 1] assms(1) by (simp add: 2)
    have P: "base64_pass bytes i base64 =
        base64[4 * i := [alphabet ! (unat x div 4)],
               4 * i + 1 := [alphabet ! (unat x mod 4 * 16 + unat y div 16)],
               4 * i + 2 := [alphabet ! (unat y mod 16 * 4)], 4 * i + 3 := ''='']"
      apply (simp only: base64_pass_def Let_def enc_v0 [OF unat_u8_less] enc_v1
          enc_v1_or [OF unat_u8_less] enc_v2)
      apply (simp add: len x y or_add_16 div_bounds alphabet_at_less value_bounds
          PADDING_INDEX_64 alphabet_64)
      done
    show ?thesis
      unfolding P using take_update4 [OF assms(2)] by (simp add: slots_def 2)
  next
    case 3
    have len: "3 * i + 2 < length bytes"
      using arg_cong [OF 3, of length] assms(1) by simp
    have x: "bytes ! (3 * i) = x"
      using nth_drop [of "3 * i" bytes 0] assms(1) by (simp add: 3)
    have y: "bytes ! Suc (3 * i) = y"
      using nth_drop [of "3 * i" bytes 1] assms(1) by (simp add: 3)
    have z: "bytes ! Suc (Suc (3 * i)) = z"
      using nth_drop [of "3 * i" bytes 2] assms(1) by (simp add: 3)
    have P: "base64_pass bytes i base64 =
        base64[4 * i := [alphabet ! (unat x div 4)],
               4 * i + 1 := [alphabet ! (unat x mod 4 * 16 + unat y div 16)],
               4 * i + 2 := [alphabet ! (unat y mod 16 * 4 + unat z div 64)],
               4 * i + 3 := [alphabet ! (unat z mod 64)]]"
      apply (simp only: base64_pass_def Let_def enc_v0 [OF unat_u8_less] enc_v1
          enc_v1_or [OF unat_u8_less] enc_v2 enc_v2_or [OF unat_u8_less] and_63_mod)
      apply (use len in \<open>simp add: x y z or_add_16 or_add_4 div_bounds alphabet_at_less value_bounds\<close>)
      done
    show ?thesis
      unfolding P using take_update4 [OF assms(2)] by (simp add: slots_def 3)
  qed
qed

lemma loop_slots:
  "length base64 = 4 * ((length bytes + 2) div 3) \<Longrightarrow> 4 * i \<le> length base64 \<Longrightarrow>
   bytesToBase64_loop bytes i base64 = take (4 * i) base64 @ slots (drop (3 * i) bytes)"
proof (induction bytes i base64 rule: bytesToBase64_loop.induct)
  case (1 bytes i base64)
  show ?case
  proof (cases "3 * i < length bytes")
    case True
    let ?b = "base64_pass bytes i base64"
    from True have "i + 1 \<le> (length bytes + 2) div 3" by arith
    with 1(2) have le: "4 * i + 4 \<le> length base64" by simp
    have "bytesToBase64_loop bytes i base64 = bytesToBase64_loop bytes (i + 1) ?b"
      by (subst bytesToBase64_loop.simps) (simp add: True)
    also have "\<dots> = take (4 * (i + 1)) ?b @ slots (drop (3 * (i + 1)) bytes)"
      using 1(1) [OF True] 1(2) le by (simp add: length_base64_pass)
    also have "take (4 * (i + 1)) ?b = take (4 * i) base64 @ take 4 (slots (drop (3 * i) bytes))"
      using pass_take [OF True le] by (simp add: add.commute)
    finally show ?thesis
      using slots_step [OF True] by simp
  next
    case False
    with 1(2,3) have "4 * i = length base64" by simp
    with False show ?thesis
      by (subst bytesToBase64_loop.simps) (simp add: slots_def)
  qed
qed

lemma bytesToBase64_eq:
  "bytesToBase64 bytes = map ((!) alphabet) (sextets bytes) @ pad_of bytes"
proof -
  have "bytesToBase64 bytes = concat (slots bytes)"
    by (simp add: bytesToBase64_def loop_slots)
  also have "\<dots> = map ((!) alphabet) (sextets bytes) @ pad_of bytes"
    by (simp add: slots_def concat_map_singleton comp_def)
  finally show ?thesis .
qed



lemma distinct_alphabet: "distinct alphabet"
  by (simp add: alphabet_def)

lemma length_alphabet: "length alphabet = 65"
  by (simp add: alphabet_def)

lemma index_of_nth: "distinct xs \<Longrightarrow> k < length xs \<Longrightarrow> index_of (xs ! k) xs = Some k"
proof (induction xs arbitrary: k)
  case Nil
  then show ?case by simp
next
  case (Cons a xs)
  then show ?case by (cases k) auto
qed

lemma base64_value_alphabet: "k < 64 \<Longrightarrow> base64_value (alphabet ! k) = Some k"
proof -
  assume k: "k < 64"
  have d: "distinct (take 64 alphabet)" using distinct_alphabet by (rule distinct_take)
  have l: "length (take 64 alphabet) = 64" by (simp add: length_alphabet)
  have "index_of (take 64 alphabet ! k) (take 64 alphabet) = Some k"
    using d k l by (intro index_of_nth) simp_all
  then show ?thesis using k by (simp add: base64_value_def)
qed

lemma sextets_bound: "k \<in> set (sextets xs) \<Longrightarrow> k < 64"
proof (induction xs arbitrary: k rule: sextets.induct)
  case (1 x y z r)
  then show ?case
    using unat_u8_less [of x] unat_u8_less [of y] unat_u8_less [of z] by auto
next
  case (2 x y)
  then show ?case using unat_u8_less [of x] unat_u8_less [of y] by auto
next
  case (3 x)
  then show ?case using unat_u8_less [of x] by auto
next
  case 4
  then show ?case by simp
qed

lemma those_values_alphabet:
  "\<forall>k\<in>set ks. k < 64 \<Longrightarrow> those_values (map ((!) alphabet) ks) = Some ks"
  by (induction ks) (simp_all add: base64_value_alphabet)

lemma decode_sextets_sextets: "decode_sextets (sextets xs) = map unat xs"
proof (induction xs rule: sextets.induct)
  case (1 x y z r)
  then show ?case
    using group_of_four [OF unat_u8_less [of x] unat_u8_less [of y] unat_u8_less [of z]]
    by (simp add: Let_def)
next
  case (2 x y)
  then show ?case
    using group_of_three [OF unat_u8_less [of x] unat_u8_less [of y]] by (simp add: Let_def)
next
  case (3 x)
  then show ?case using group_of_two [of "unat x"] by simp
next
  case 4
  then show ?case by simp
qed

lemma alphabet_not_whitespace: "c \<in> set alphabet \<Longrightarrow> \<not> is_ascii_whitespace c"
  by (auto simp add: alphabet_def is_ascii_whitespace_def)

lemma alphabet_nth_not_pad: "k < 64 \<Longrightarrow> alphabet ! k \<noteq> CHR ''=''"
proof
  assume k: "k < 64" and "alphabet ! k = CHR ''=''"
  then have "alphabet ! k = alphabet ! 64" by (simp add: alphabet_64)
  then have "k = 64"
    using distinct_alphabet k by (simp add: nth_eq_iff_index_eq length_alphabet)
  with k show False by simp
qed

lemma strip_padding_append:
  assumes "\<forall>c\<in>set t. c \<noteq> CHR ''=''"
    and "p = [] \<or> p = ''='' \<or> p = ''==''"
    and "length (t @ p) mod 4 = 0"
  shows "strip_padding (t @ p) = t"
proof -
  have hd_rev: "rev t = x # r \<Longrightarrow> x \<noteq> CHR ''=''" for x r
  proof -
    assume "rev t = x # r"
    then have "x \<in> set (rev t)" by simp
    with assms(1) show ?thesis by simp
  qed
  from assms(2) consider "p = []" | "p = ''=''" | "p = ''==''" by blast
  then show ?thesis
  proof cases
    case 1
    show ?thesis
    proof (cases "rev t")
      case Nil
      then show ?thesis using 1 by (simp add: strip_padding_def)
    next
      case (Cons x r)
      with hd_rev have "x \<noteq> CHR ''=''" by simp
      with Cons 1 show ?thesis
        by (cases r) (simp_all add: strip_padding_def)
    qed
  next
    case 2
    show ?thesis
    proof (cases "rev t")
      case Nil
      with assms(3) 2 show ?thesis by simp
    next
      case (Cons x r)
      with hd_rev have "x \<noteq> CHR ''=''" by simp
      moreover from Cons have "t = rev (x # r)" by (metis rev_rev_ident)
      ultimately show ?thesis using 2 assms(3) Cons
        by (simp add: strip_padding_def)
    qed
  next
    case 3
    have "rev (rev t) = t" by simp
    with 3 assms(3) show ?thesis
      by (simp add: strip_padding_def)
  qed
qed

lemma length_sextets_pad:
  "(length (sextets xs) + length (pad_of xs)) mod 4 = 0 \<and> length (sextets xs) mod 4 \<noteq> 1"
  by (induction xs rule: sextets.induct) simp_all

lemma pad_of_cases: "pad_of xs = [] \<or> pad_of xs = ''='' \<or> pad_of xs = ''==''"
  by (induction xs rule: sextets.induct) simp_all

lemma pad_of_alphabet: "c \<in> set (pad_of xs) \<Longrightarrow> c = CHR ''=''"
  using pad_of_cases [of xs] by auto

lemma atob_bytesToBase64: "atob (bytesToBase64 xs) = Some (map unat xs)"
proof -
  let ?t = "map ((!) alphabet) (sextets xs)"
  have in_alpha: "c \<in> set ?t \<Longrightarrow> c \<in> set alphabet" for c
  proof -
    assume "c \<in> set ?t"
    then obtain k where "k \<in> set (sextets xs)" and c: "c = alphabet ! k" by auto
    then have "k < length alphabet"
      using sextets_bound [of k xs] by (simp add: length_alphabet)
    then show ?thesis unfolding c by (rule nth_mem)
  qed
  have pad_alpha: "c \<in> set (pad_of xs) \<Longrightarrow> c \<in> set alphabet" for c
  proof -
    assume "c \<in> set (pad_of xs)"
    then have "c = alphabet ! 64" using pad_of_alphabet [of c xs] by (simp add: alphabet_64)
    then show ?thesis using nth_mem [of 64 alphabet] by (simp add: length_alphabet)
  qed
  have no_ws: "filter (\<lambda>c. \<not> is_ascii_whitespace c) (?t @ pad_of xs) = ?t @ pad_of xs"
    using in_alpha pad_alpha alphabet_not_whitespace
    by (intro filter_True) auto
  have no_pad: "\<forall>c\<in>set ?t. c \<noteq> CHR ''=''"
    using sextets_bound [of _ xs] alphabet_nth_not_pad by auto
  have strip: "strip_padding (?t @ pad_of xs) = ?t"
    using no_pad pad_of_cases [of xs] length_sextets_pad [of xs]
    by (intro strip_padding_append) simp_all
  have len: "length ?t mod 4 \<noteq> 1"
    using length_sextets_pad [of xs] by simp
  have vals: "those_values ?t = Some (sextets xs)"
    using sextets_bound [of _ xs] by (intro those_values_alphabet) simp
  show ?thesis
    unfolding atob_def bytesToBase64_eq no_ws strip Let_def
    using len by (simp add: vals decode_sextets_sextets)
qed

lemma base64ToBytes_bytesToBase64: "base64ToBytes (bytesToBase64 x) = Some x"
  by (simp add: base64ToBytes_def atob_bytesToBase64 comp_def map_idI)

text \<open>
  Claim C1. Decoding the text produced by encoding any byte sequence, the empty one
  included, returns exactly that byte sequence:
  \<open>base64ToBytes (bytesToBase64 x) = x\<close>, and the decoder does not raise.
\<close>

theorem base64_roundtrip: "base64ToBytes (bytesToBase64 x) = Some x"
  by (rule base64ToBytes_bytesToBase64)

section \<open>Properties of the validator\<close>

lemma char_of_unat_inj: "char_of (unat (a::u8)) = (char_of (unat b) :: char) \<Longrightarrow> a = b"
proof -
  assume "char_of (unat a) = (char_of (unat b) :: char)"
  then have "of_char (char_of (unat a) :: char) = (of_char (char_of (unat b) :: char) :: nat)"
    by simp
  then have "unat a mod 256 = unat b mod 256"
    by (simp only: of_char_of)
  then have "unat a = unat b"
    using unat_u8_less [of a] unat_u8_less [of b] by simp
  then show ?thesis by (simp add: word_unat_eq_iff)
qed

lemma inj_fromCharCode: "inj (\<lambda>b::u8. (char_of (unat b) :: char))"
  by (rule injI) (rule char_of_unat_inj)

lemma goodName_bytes: "String_fromCharCode name_field_bytes = goodName"
  by (simp add: String_fromCharCode_def name_field_bytes_def goodName_def char_of_def bit_0)

lemma fromCharCode_eq_goodName:
  "String_fromCharCode xs = goodName \<longleftrightarrow> xs = name_field_bytes"
  unfolding goodName_bytes [symmetric] String_fromCharCode_def
  by (rule inj_map_eq_map [OF inj_fromCharCode])

lemma isValidROM_char:
  "isValidROM b \<longleftrightarrow>
     length b = 1048576 \<and> take 21 (drop 0x7FC0 b) = name_field_bytes \<and>
     le16 (b ! 0x7FDE) (b ! 0x7FDF) = 0xF834"
  by (auto simp add: isValidROM_def Let_def fromCharCode_eq_goodName slice_def js_index_def
      romChecksum_of_def goodChecksum_def le16_def push_bit_eq_mult)


lemma le16_inj: "le16 a b = le16 c d \<longleftrightarrow> a = c \<and> b = d"
proof
  assume e: "le16 a b = le16 c d"
  have "le16 a b mod 256 = unat a" "le16 a b div 256 = unat b"
       "le16 c d mod 256 = unat c" "le16 c d div 256 = unat d"
    using unat_u8_less [of a] unat_u8_less [of c] by (simp_all add: le16_def)
  with e have "unat a = unat c" "unat b = unat d" by simp_all
  then show "a = c \<and> b = d" by (simp add: word_unat_eq_iff)
qed simp

lemma mutation_invalid:
  assumes v: "isValidROM b" and i: "i \<in> field_offsets" and neq: "v \<noteq> b ! i"
  shows "\<not> isValidROM (b[i := v])"
proof
  assume m: "isValidROM (b[i := v])"
  from v have len: "length b = 1048576"
    and name: "take 21 (drop 0x7FC0 b) = name_field_bytes"
    and sum: "le16 (b ! 0x7FDE) (b ! 0x7FDF) = 0xF834"
    by (simp_all add: isValidROM_char)
  from m have name': "take 21 (drop 0x7FC0 (b[i := v])) = name_field_bytes"
    and sum': "le16 (b[i := v] ! 0x7FDE) (b[i := v] ! 0x7FDF) = 0xF834"
    by (simp_all add: isValidROM_char)
  from i consider "0x7FC0 \<le> i" "i < 0x7FD5" | "i = 0x7FDE" | "i = 0x7FDF"
    by (auto simp add: field_offsets_def)
  then show False
  proof cases
    case 1
    then have k: "i - 0x7FC0 < 21" by simp
    have "take 21 (drop 0x7FC0 (b[i := v])) ! (i - 0x7FC0) = v"
      using 1 len k by simp
    moreover have "take 21 (drop 0x7FC0 b) ! (i - 0x7FC0) = b ! i"
      using 1 len k by simp
    ultimately show False using name name' neq by simp
  next
    case 2
    with sum sum' len have "le16 v (b ! 0x7FDF) = le16 (b ! 0x7FDE) (b ! 0x7FDF)" by simp
    with neq 2 show False by (simp add: le16_inj)
  next
    case 3
    with sum sum' len have "le16 (b ! 0x7FDE) v = le16 (b ! 0x7FDE) (b ! 0x7FDF)" by simp
    with neq 3 show False by (simp add: le16_inj)
  qed
qed

text \<open>
  Claim C2. \<open>isValidROM b\<close> is true exactly when (a) the length of \<open>b\<close> is
  1,048,576, (b) the 21 bytes at offset \<open>0x7FC0\<close> are \<open>SHADOWRUN\<close> followed by 12
  spaces in ASCII, and (c) the bytes at \<open>0x7FDE\<close> and \<open>0x7FDF\<close>, read as a
  little-endian 16-bit integer, are \<open>0xF834\<close>. Consequently changing any single
  byte of either field of an accepted image, or its length, makes the result false.
  The result is one boolean.
\<close>

theorem isValidROM_iff:
  "(isValidROM b \<longleftrightarrow>
      length b = 1048576 \<and> take 21 (drop 0x7FC0 b) = name_field_bytes \<and>
      le16 (b ! 0x7FDE) (b ! 0x7FDF) = 0xF834) \<and>
   (isValidROM b \<and> i \<in> field_offsets \<and> v \<noteq> b ! i \<longrightarrow> \<not> isValidROM (b[i := v])) \<and>
   (isValidROM b \<and> length b' \<noteq> length b \<longrightarrow> \<not> isValidROM b')"
proof (intro conjI impI)
  show "isValidROM b \<longleftrightarrow>
      length b = 1048576 \<and> take 21 (drop 0x7FC0 b) = name_field_bytes \<and>
      le16 (b ! 0x7FDE) (b ! 0x7FDF) = 0xF834"
    by (rule isValidROM_char)
next
  assume "isValidROM b \<and> i \<in> field_offsets \<and> v \<noteq> b ! i"
  then show "\<not> isValidROM (b[i := v])" by (simp add: mutation_invalid)
next
  assume "isValidROM b \<and> length b' \<noteq> length b"
  then show "\<not> isValidROM b'" by (auto simp add: isValidROM_char)
qed

lemma sample_rom_fields:
  "length sample_rom = 1048576"
  "take 21 (drop 0x7FC0 sample_rom) = name_field_bytes"
  "sample_rom ! 0x7FDE = 0x34" "sample_rom ! 0x7FDF = 0xF8"
  "sample_rom ! 0x7FC0 = 0x53"
  by (simp_all add: sample_rom_def name_field_bytes_def nth_append)

theorem isValidROM_iff_witness:
  "isValidROM sample_rom \<and> \<not> isValidROM (sample_rom[0x7FC0 := 0x73]) \<and>
   \<not> isValidROM (butlast sample_rom)"
  using isValidROM_iff [of sample_rom "0x7FC0" "0x73" "butlast sample_rom"]
  by (simp add: sample_rom_fields le16_def field_offsets_def)

lemma those_map_Some: "those (map Some xs) = Some xs"
  by (induction xs) simp_all

lemma those_js_index:
  assumes "e \<le> length xs"
  shows "those (map (js_index xs) [s ..< e]) = Some (slice xs s e)"
proof -
  have "map (js_index xs) [s ..< e] = map Some (map ((!) xs) [s ..< e])"
    using assms by (simp add: js_index_def)
  also have "map ((!) xs) [s ..< e] = slice xs s e"
    unfolding slice_def using assms by (intro nth_equalityI) simp_all
  finally show ?thesis by (simp only: those_map_Some)
qed

lemma isValidROM_sample_rom: "isValidROM sample_rom"
  by (simp add: isValidROM_char sample_rom_fields le16_def)

lemma not_isValidROM_short: "length b < 1048576 \<Longrightarrow> \<not> isValidROM b"
  by (simp add: isValidROM_def)

text \<open>
  Claim C9. \<open>isValidROM\<close> never reads outside its input: with every element read
  checked, the out-of-bounds outcome \<open>None\<close> is unreachable for every byte
  sequence, because the offsets \<open>0x7FC0 .. 0x7FD4\<close>, \<open>0x7FDE\<close> and \<open>0x7FDF\<close> are
  read only after the length test has passed; the checked function returns what
  \<open>isValidROM\<close> returns.
\<close>

theorem isValidROM_checked_total: "isValidROM_checked b = Some (isValidROM b)"
proof (cases "length b = 1048576")
  case False
  then show ?thesis by (simp add: isValidROM_checked_def isValidROM_def)
next
  case True
  then have name: "those (map (js_index b) [0x7FC0 ..< 0x7FD5]) = Some (slice b 0x7FC0 0x7FD5)"
    by (intro those_js_index) simp
  show ?thesis
    unfolding isValidROM_checked_def name
    using True
    by (simp add: isValidROM_def js_index_def romChecksum_of_def Let_def)
qed

section \<open>Properties of the worker\<close>

subsection \<open>Argument vector\<close>

text \<open>
  Claim C4, as stated: the argument vector is the dry-run flag, then \<open>--seed\<close> and
  the seed text iff that text is not empty, then \<open>--allow-item-duplication\<close> iff the
  duplication flag is set, then \<open>--spoiler-log\<close> iff the log flag is set, then the
  image's path. For the seed text \<open>42\<close> and both flags off the vector that the
  dispatcher builds differs from this one: it starts with the script's name and has
  the separator \<open>--\<close> before the path.
\<close>

theorem mockArgv_not_spec:
  "build_mockArgv ''42'' False False =
     [''shadowrun_randomizer.py'', ''--dry-run'', ''--seed'', ''42'', ''--'', ''shadowrun.sfc''] \<and>
   spec_argument_vector ''42'' False False =
     [''--dry-run'', ''--seed'', ''42'', ''shadowrun.sfc''] \<and>
   build_mockArgv ''42'' False False \<noteq> spec_argument_vector ''42'' False False"
  by (simp add: build_mockArgv_def spec_argument_vector_def push_def romFileName_def)

text \<open>
  Claim C4, amended: for every seed text and pair of flags, the argument vector that
  the dispatcher builds is the script's name \<open>shadowrun_randomizer.py\<close>; then the
  forced dry-run flag; then \<open>--seed\<close> and the seed text iff that text is not empty;
  then \<open>--allow-item-duplication\<close> iff the duplication flag is set; then
  \<open>--spoiler-log\<close> iff the log flag is set; then the separator \<open>--\<close>; then the
  written image's path.
\<close>

theorem mockArgv_shape:
  "build_mockArgv seedString itemDuplication spoilerLog =
     [''shadowrun_randomizer.py'', ''--dry-run''] @
     (if seedString \<noteq> [] then [''--seed'', seedString] else []) @
     (if itemDuplication then [''--allow-item-duplication''] else []) @
     (if spoilerLog then [''--spoiler-log''] else []) @
     [''--'', ''shadowrun.sfc'']"
  by (simp add: build_mockArgv_def push_def romFileName_def)

subsection \<open>Basename\<close>

lemma rpartition_split:
  assumes "sep \<notin> set ext"
  shows "rpartition (stem @ sep # ext) sep = (stem, [sep], ext)"
proof -
  have r: "rev (stem @ sep # ext) = rev ext @ sep # rev stem" by simp
  have d: "dropWhile (\<lambda>c. c \<noteq> sep) (rev ext @ sep # rev stem) = sep # rev stem"
    using assms by (subst dropWhile_append2) auto
  have t: "takeWhile (\<lambda>c. c \<noteq> sep) (rev ext @ sep # rev stem) = rev ext"
    using assms by (subst takeWhile_append2) auto
  show ?thesis unfolding rpartition_def r d t by simp
qed

lemma rpartition_absent:
  assumes "sep \<notin> set s"
  shows "rpartition s sep = ([], [], s)"
proof -
  have d: "dropWhile (\<lambda>c. c \<noteq> sep) (rev s) = []"
    using assms by auto
  show ?thesis unfolding rpartition_def d by simp
qed

lemma newBasename_split:
  "CHR ''.'' \<notin> set ext \<Longrightarrow>
   newBasename (stem @ CHR ''.'' # ext) =
     (if stem \<noteq> [] \<and> ext \<noteq> [] then stem else stem @ CHR ''.'' # ext)"
  by (simp add: newBasename_def rpartition_split)

lemma newBasename_absent: "CHR ''.'' \<notin> set name \<Longrightarrow> newBasename name = name"
  by (simp add: newBasename_def rpartition_absent)

text \<open>
  Claim C5. For every output name, the packager's basename is the stem when the name
  splits around its final \<open>.\<close> into a non-empty stem and a non-empty extension, and
  the name unchanged otherwise. In particular \<open>foo.sfc\<close> gives \<open>foo\<close>, \<open>foo\<close>
  gives \<open>foo\<close>, and \<open>.sfc\<close> gives \<open>.sfc\<close>.
\<close>

theorem newBasename_rule:
  "(stem \<noteq> [] \<and> ext \<noteq> [] \<and> CHR ''.'' \<notin> set ext \<longrightarrow> newBasename (stem @ ''.'' @ ext) = stem) \<and>
   ((\<forall>st ex. name = st @ ''.'' @ ex \<and> CHR ''.'' \<notin> set ex \<longrightarrow> st = [] \<or> ex = []) \<longrightarrow>
      newBasename name = name) \<and>
   newBasename ''foo.sfc'' = ''foo'' \<and> newBasename ''foo'' = ''foo'' \<and>
   newBasename ''.sfc'' = ''.sfc''"
proof (intro conjI impI)
  assume "stem \<noteq> [] \<and> ext \<noteq> [] \<and> CHR ''.'' \<notin> set ext"
  then show "newBasename (stem @ ''.'' @ ext) = stem" by (simp add: newBasename_split)
next
  assume none: "\<forall>st ex. name = st @ ''.'' @ ex \<and> CHR ''.'' \<notin> set ex \<longrightarrow> st = [] \<or> ex = []"
  show "newBasename name = name"
  proof (cases "CHR ''.'' \<in> set name")
    case False
    then show ?thesis by (rule newBasename_absent)
  next
    case True
    then obtain st ex where n: "name = st @ CHR ''.'' # ex" and ex: "CHR ''.'' \<notin> set ex"
      by (auto dest: split_list_last)
    with none have "st = [] \<or> ex = []" by simp
    then show ?thesis using newBasename_split [OF ex, of st] n by auto
  qed
next
  show "newBasename ''foo.sfc'' = ''foo''"
    using newBasename_split [of "''sfc''" "''foo''"] by simp
  show "newBasename ''foo'' = ''foo''"
    by (simp add: newBasename_absent)
  show "newBasename ''.sfc'' = ''.sfc''"
    using newBasename_split [of "''sfc''" "[]"] by simp
qed

theorem newBasename_rule_witness:
  "newBasename ''a.b.c'' = ''a.b'' \<and> newBasename ''foo.'' = ''foo.''"
proof
  show "newBasename ''a.b.c'' = ''a.b''"
    using newBasename_rule [of "''a.b''" "''c''" "[]"] by simp
  have "\<forall>st ex. ''foo.'' = st @ ''.'' @ ex \<and> CHR ''.'' \<notin> set ex \<longrightarrow> st = [] \<or> ex = []"
    by (auto simp add: append_eq_Cons_conv Cons_eq_append_conv)
  then show "newBasename ''foo.'' = ''foo.''"
    using newBasename_rule [of "[]" "[]" "''foo.''"] by blast
qed

subsection \<open>Archive\<close>









section \<open>Properties of the page handlers\<close>

subsection \<open>Submission\<close>

lemma getItem_with_record:
  "getItem (localStorage (with_record bytes)) ''rom_base64'' = Some (bytesToBase64 bytes)"
  by (simp add: with_record_def getItem_def)

lemma getItem_page0: "getItem (localStorage page0) ''rom_base64'' = None"
  by (simp add: page0_def getItem_def)

lemma danger_classes:
  "insert ''text-danger'' (insert ''d-none'' (C - {''text-success'', ''text-danger''})) - {''d-none''}
   = insert ''text-danger'' (C - {''text-success'', ''text-danger'', ''d-none''})"
  by auto

lemma updateStatusMessage_twice:
  "updateStatusMessage message ''danger'' (updateStatusMessage [] [] s) = danger_shown message s"
  by (simp add: updateStatusMessage_def danger_shown_def Let_def danger_classes)

lemma updateStatusMessage_other [simp]:
  "localStorage (updateStatusMessage m c s) = localStorage s"
  "seed_value (updateStatusMessage m c s) = seed_value s"
  "worker_posted (updateStatusMessage m c s) = worker_posted s"
  "itemDuplication_checked (updateStatusMessage m c s) = itemDuplication_checked s"
  "spoilerLog_checked (updateStatusMessage m c s) = spoilerLog_checked s"
  "statusMessage_innerText (updateStatusMessage m c s) = m"
  "fileButton_classList (updateStatusMessage m c s) = fileButton_classList s"
  "fileButton_innerText (updateStatusMessage m c s) = fileButton_innerText s"
  "generate_disabled (updateStatusMessage m c s) = generate_disabled s"
  by (simp_all add: updateStatusMessage_def Let_def)

lemma danger_shown_other [simp]:
  "worker_posted (danger_shown m s) = worker_posted s"
  "statusMessage_innerText (danger_shown m s) = m"
  by (simp_all add: danger_shown_def)

lemma regex_examples:
  "integerRegex_test ''0''" "integerRegex_test ''4294967295''" "integerRegex_test ''007''"
  "\<not> integerRegex_test ''''" "\<not> integerRegex_test ''12.3''" "\<not> integerRegex_test ''-5''"
  "\<not> integerRegex_test ''abc''"
  by (simp_all add: integerRegex_test_def is_digit_def)

text \<open>
  Claim C3. \<open>generate\<close> posts a job to the worker if and only if a stored record
  exists, its decoded bytes pass the validator, and the trimmed seed input matches
  \<^verbatim>\<open>^[0-9]+$\<close> (so \<open>0\<close>, \<open>4294967295\<close> and \<open>007\<close> are accepted, and the empty
  text, \<open>12.3\<close>, \<open>-5\<close> and \<open>abc\<close> are rejected). On a failed check it shows the
  corresponding message (\<open>No ROM selected\<close>, \<open>Invalid ROM selected\<close>, \<open>Seed must
  be a number\<close>), posts nothing, and returns with no other change of the state.
\<close>

theorem generate_dispatch:
  "(worker_posted (state_of (generate s)) \<noteq> worker_posted s \<longleftrightarrow>
      (\<exists>t bs. getItem (localStorage s) ''rom_base64'' = Some t \<and> base64ToBytes t = Some bs \<and>
         isValidROM bs \<and> integerRegex_test (trim (seed_value s)))) \<and>
   (getItem (localStorage s) ''rom_base64'' = None \<longrightarrow>
      generate s = Returned (danger_shown ''No ROM selected'' s)) \<and>
   (getItem (localStorage s) ''rom_base64'' = Some t \<and> base64ToBytes t = Some bs \<and>
      \<not> isValidROM bs \<longrightarrow>
      generate s = Returned (danger_shown ''Invalid ROM selected'' s)) \<and>
   (getItem (localStorage s) ''rom_base64'' = Some t \<and> base64ToBytes t = Some bs \<and>
      isValidROM bs \<and> \<not> integerRegex_test (trim (seed_value s)) \<longrightarrow>
      generate s = Returned (danger_shown ''Seed must be a number'' s)) \<and>
   (getItem (localStorage s) ''rom_base64'' = Some t \<and> base64ToBytes t = Some bs \<and>
      isValidROM bs \<and> integerRegex_test (trim (seed_value s)) \<longrightarrow>
      worker_posted (state_of (generate s)) =
        worker_posted s @
        [\<lparr>args_romBytes = bs, args_seedString = trim (seed_value s),
          args_itemDuplication = itemDuplication_checked s,
          args_spoilerLog = spoilerLog_checked s\<rparr>]) \<and>
   integerRegex_test ''0'' \<and> integerRegex_test ''4294967295'' \<and> integerRegex_test ''007'' \<and>
   \<not> integerRegex_test '''' \<and> \<not> integerRegex_test ''12.3'' \<and> \<not> integerRegex_test ''-5'' \<and>
   \<not> integerRegex_test ''abc''"
proof -
  have iff: "worker_posted (state_of (generate s)) \<noteq> worker_posted s \<longleftrightarrow>
      (\<exists>t bs. getItem (localStorage s) ''rom_base64'' = Some t \<and> base64ToBytes t = Some bs \<and>
         isValidROM bs \<and> integerRegex_test (trim (seed_value s)))"
    by (auto simp add: generate_def Let_def updateStatusMessage_twice split: option.splits)
  have none: "getItem (localStorage s) ''rom_base64'' = None \<longrightarrow>
      generate s = Returned (danger_shown ''No ROM selected'' s)"
    by (simp add: generate_def Let_def updateStatusMessage_twice)
  have invalid: "getItem (localStorage s) ''rom_base64'' = Some t \<and> base64ToBytes t = Some bs \<and>
      \<not> isValidROM bs \<longrightarrow>
      generate s = Returned (danger_shown ''Invalid ROM selected'' s)"
    by (simp add: generate_def Let_def updateStatusMessage_twice)
  have seed: "getItem (localStorage s) ''rom_base64'' = Some t \<and> base64ToBytes t = Some bs \<and>
      isValidROM bs \<and> \<not> integerRegex_test (trim (seed_value s)) \<longrightarrow>
      generate s = Returned (danger_shown ''Seed must be a number'' s)"
    by (simp add: generate_def Let_def updateStatusMessage_twice)
  have ok: "getItem (localStorage s) ''rom_base64'' = Some t \<and> base64ToBytes t = Some bs \<and>
      isValidROM bs \<and> integerRegex_test (trim (seed_value s)) \<longrightarrow>
      worker_posted (state_of (generate s)) =
        worker_posted s @
        [\<lparr>args_romBytes = bs, args_seedString = trim (seed_value s),
          args_itemDuplication = itemDuplication_checked s,
          args_spoilerLog = spoilerLog_checked s\<rparr>]"
    by (simp add: generate_def Let_def)
  show ?thesis
    using iff none invalid seed ok regex_examples by blast
qed


lemma trim_example: "trim ''  42 '' = ''42''"
  by (simp add: trim_def is_js_whitespace_def)

theorem generate_dispatch_witness:
  "generate page0 = Returned (danger_shown ''No ROM selected'' page0) \<and>
   generate (with_record [1, 2, 3]) =
     Returned (danger_shown ''Invalid ROM selected'' (with_record [1, 2, 3])) \<and>
   generate ((with_record sample_rom)\<lparr>seed_value := ''abc''\<rparr>) =
     Returned (danger_shown ''Seed must be a number''
       ((with_record sample_rom)\<lparr>seed_value := ''abc''\<rparr>)) \<and>
   worker_posted (state_of (generate ((with_record sample_rom)\<lparr>seed_value := ''  42 ''\<rparr>))) =
     [\<lparr>args_romBytes = sample_rom, args_seedString = ''42'',
       args_itemDuplication = False, args_spoilerLog = False\<rparr>]"
proof (intro conjI)
  show "generate page0 = Returned (danger_shown ''No ROM selected'' page0)"
    using generate_dispatch [of page0] by (simp add: getItem_page0)
  show "generate (with_record [1, 2, 3]) =
     Returned (danger_shown ''Invalid ROM selected'' (with_record [1, 2, 3]))"
    using generate_dispatch [of "with_record [1, 2, 3]" "bytesToBase64 [1, 2, 3]" "[1, 2, 3]"]
    by (simp add: getItem_with_record base64ToBytes_bytesToBase64 not_isValidROM_short)
  let ?a = "(with_record sample_rom)\<lparr>seed_value := ''abc''\<rparr>"
  have ga: "getItem (localStorage ?a) ''rom_base64'' = Some (bytesToBase64 sample_rom)"
    using getItem_with_record [of sample_rom] by simp
  show "generate ?a = Returned (danger_shown ''Seed must be a number'' ?a)"
    using generate_dispatch [of ?a "bytesToBase64 sample_rom" sample_rom] ga
    by (simp add: base64ToBytes_bytesToBase64 isValidROM_sample_rom trim_def
        is_js_whitespace_def integerRegex_test_def is_digit_def)
  let ?b = "(with_record sample_rom)\<lparr>seed_value := ''  42 ''\<rparr>"
  have gb: "getItem (localStorage ?b) ''rom_base64'' = Some (bytesToBase64 sample_rom)"
    using getItem_with_record [of sample_rom] by simp
  have fl: "itemDuplication_checked ?b = False" "spoilerLog_checked ?b = False"
    "worker_posted ?b = []"
    by (simp_all add: with_record_def page0_def)
  show "worker_posted (state_of (generate ?b)) =
     [\<lparr>args_romBytes = sample_rom, args_seedString = ''42'',
       args_itemDuplication = False, args_spoilerLog = False\<rparr>]"
    using generate_dispatch [of ?b "bytesToBase64 sample_rom" sample_rom] gb fl
    by (simp add: base64ToBytes_bytesToBase64 isValidROM_sample_rom trim_example
        integerRegex_test_def is_digit_def)
qed

subsection \<open>The file button\<close>

lemma file_view_updateFileButton:
  "file_view (state_of (updateFileButton s)) =
    (case getItem (localStorage s) ''rom_base64'' of
       None \<Rightarrow> ({''btn-warning''}, ''No ROM selected'', True)
     | Some t \<Rightarrow>
        (case base64ToBytes t of
           None \<Rightarrow> ({}, fileButton_innerText s, generate_disabled s)
         | Some bs \<Rightarrow>
             if isValidROM bs then ({''btn-success''}, ''Valid ROM selected'', False)
             else ({''btn-danger''}, ''Invalid ROM selected'', True)))"
  by (auto simp add: updateFileButton_def file_view_def Let_def split: option.splits)

text \<open>
  Claim C8. The visible state of the file button and the submission control is a
  function of the store contents and the validator's result alone: with no record it
  is the "no image" state with submission disabled; with a record whose decoded bytes
  fail the validator it is the "invalid" state with submission disabled; with a record
  whose decoded bytes pass the validator it is the "ready" state with submission
  enabled.
\<close>

theorem updateFileButton_states:
  "(getItem (localStorage s) ''rom_base64'' = None \<longrightarrow>
      updateFileButton s =
        Returned (s\<lparr>fileButton_classList :=
                       insert ''btn-warning''
                         (fileButton_classList s - {''btn-success'', ''btn-danger'', ''btn-warning''}),
                     fileButton_innerText := ''No ROM selected'',
                     generate_disabled := True\<rparr>)) \<and>
   (getItem (localStorage s) ''rom_base64'' = Some t \<and> base64ToBytes t = Some bs \<and>
      \<not> isValidROM bs \<longrightarrow>
      updateFileButton s =
        Returned (s\<lparr>fileButton_classList :=
                       insert ''btn-danger''
                         (fileButton_classList s - {''btn-success'', ''btn-danger'', ''btn-warning''}),
                     fileButton_innerText := ''Invalid ROM selected'',
                     generate_disabled := True\<rparr>)) \<and>
   (getItem (localStorage s) ''rom_base64'' = Some t \<and> base64ToBytes t = Some bs \<and>
      isValidROM bs \<longrightarrow>
      updateFileButton s =
        Returned (s\<lparr>fileButton_classList :=
                       insert ''btn-success''
                         (fileButton_classList s - {''btn-success'', ''btn-danger'', ''btn-warning''}),
                     fileButton_innerText := ''Valid ROM selected'',
                     generate_disabled := False\<rparr>)) \<and>
   (localStorage s' = localStorage s \<and>
      (\<forall>t. getItem (localStorage s) ''rom_base64'' = Some t \<longrightarrow> base64ToBytes t \<noteq> None) \<longrightarrow>
      file_view (state_of (updateFileButton s')) = file_view (state_of (updateFileButton s)))"
proof (intro conjI impI)
  assume "getItem (localStorage s) ''rom_base64'' = None"
  then show "updateFileButton s =
        Returned (s\<lparr>fileButton_classList :=
                       insert ''btn-warning''
                         (fileButton_classList s - {''btn-success'', ''btn-danger'', ''btn-warning''}),
                     fileButton_innerText := ''No ROM selected'',
                     generate_disabled := True\<rparr>)"
    by (simp add: updateFileButton_def Let_def)
next
  assume "getItem (localStorage s) ''rom_base64'' = Some t \<and> base64ToBytes t = Some bs \<and>
      \<not> isValidROM bs"
  then show "updateFileButton s =
        Returned (s\<lparr>fileButton_classList :=
                       insert ''btn-danger''
                         (fileButton_classList s - {''btn-success'', ''btn-danger'', ''btn-warning''}),
                     fileButton_innerText := ''Invalid ROM selected'',
                     generate_disabled := True\<rparr>)"
    by (simp add: updateFileButton_def Let_def)
next
  assume "getItem (localStorage s) ''rom_base64'' = Some t \<and> base64ToBytes t = Some bs \<and>
      isValidROM bs"
  then show "updateFileButton s =
        Returned (s\<lparr>fileButton_classList :=
                       insert ''btn-success''
                         (fileButton_classList s - {''btn-success'', ''btn-danger'', ''btn-warning''}),
                     fileButton_innerText := ''Valid ROM selected'',
                     generate_disabled := False\<rparr>)"
    by (simp add: updateFileButton_def Let_def)
next
  assume "localStorage s' = localStorage s \<and>
      (\<forall>t. getItem (localStorage s) ''rom_base64'' = Some t \<longrightarrow> base64ToBytes t \<noteq> None)"
  then show "file_view (state_of (updateFileButton s')) = file_view (state_of (updateFileButton s))"
    by (auto simp add: file_view_updateFileButton split: option.splits)
qed


theorem updateFileButton_states_witness:
  "file_view (state_of (updateFileButton page0)) = ({''btn-warning''}, ''No ROM selected'', True) \<and>
   file_view (state_of (updateFileButton (with_record [1, 2, 3]))) =
     ({''btn-danger''}, ''Invalid ROM selected'', True) \<and>
   file_view (state_of (updateFileButton (with_record sample_rom))) =
     ({''btn-success''}, ''Valid ROM selected'', False) \<and>
   file_view (state_of (updateFileButton ((with_record sample_rom)\<lparr>generate_disabled := False\<rparr>))) =
     file_view (state_of (updateFileButton (with_record sample_rom)))"
proof (intro conjI)
  have cl: "insert c ({''btn'', ''btn-warning''} - {''btn-success'', ''btn-danger'', ''btn-warning''})
      \<inter> {''btn-success'', ''btn-danger'', ''btn-warning''} =
      {c} \<inter> {''btn-success'', ''btn-danger'', ''btn-warning''}" for c
    by auto
  have fb: "fileButton_classList page0 = {''btn'', ''btn-warning''}"
    "fileButton_classList (with_record bytes) = {''btn'', ''btn-warning''}" for bytes
    by (simp_all add: page0_def with_record_def)
  show "file_view (state_of (updateFileButton page0)) =
      ({''btn-warning''}, ''No ROM selected'', True)"
    using updateFileButton_states [of page0]
    by (simp add: getItem_page0 file_view_def fb cl)
  show "file_view (state_of (updateFileButton (with_record [1, 2, 3]))) =
     ({''btn-danger''}, ''Invalid ROM selected'', True)"
    using updateFileButton_states [of "with_record [1, 2, 3]" "bytesToBase64 [1, 2, 3]" "[1, 2, 3]"]
    by (simp add: getItem_with_record base64ToBytes_bytesToBase64 not_isValidROM_short
        file_view_def fb cl)
  show "file_view (state_of (updateFileButton (with_record sample_rom))) =
     ({''btn-success''}, ''Valid ROM selected'', False)"
    using updateFileButton_states [of "with_record sample_rom" "bytesToBase64 sample_rom" sample_rom]
    by (simp add: getItem_with_record base64ToBytes_bytesToBase64 isValidROM_sample_rom
        file_view_def fb cl)
  show "file_view (state_of (updateFileButton ((with_record sample_rom)\<lparr>generate_disabled := False\<rparr>))) =
     file_view (state_of (updateFileButton (with_record sample_rom)))"
    using updateFileButton_states [of "with_record sample_rom" _ _
        "(with_record sample_rom)\<lparr>generate_disabled := False\<rparr>"]
    by (simp add: getItem_with_record base64ToBytes_bytesToBase64)
qed

subsection \<open>Storing a selected image\<close>

lemma getItem_removeItem: "getItem (removeItem backend k) k = None"
  by (simp add: getItem_def removeItem_def)

lemma updateFileButton_absent:
  "getItem (localStorage s) ''rom_base64'' = None \<Longrightarrow>
   updateFileButton s =
     Returned (s\<lparr>fileButton_classList :=
                    insert ''btn-warning''
                      (fileButton_classList s - {''btn-success'', ''btn-danger'', ''btn-warning''}),
                  fileButton_innerText := ''No ROM selected'',
                  generate_disabled := True\<rparr>)"
  by (simp add: updateFileButton_def Let_def)

lemma resume_quota:
  assumes "setItem backend_set (localStorage s) ''rom_base64'' (bytesToBase64 fileBytes) = (Some e, b)"
    and "is_quota_exceeded e"
  shows "\<exists>s'. changeFileName_resume backend_set fileBytes s = Returned s' \<and>
      getItem (localStorage s') ''rom_base64'' = None \<and>
      statusMessage_innerText s' = ''Could not store ROM: localStorage quota exceeded'' \<and>
      ''text-danger'' \<in> statusIcon_classList s' \<and>
      fileButton_innerText s' = ''No ROM selected'' \<and> generate_disabled s' \<and>
      worker_posted s' = worker_posted s"
proof -
  let ?s1 = "updateStatusMessage ''Could not store ROM: localStorage quota exceeded'' ''danger''
               (s\<lparr>localStorage := removeItem b ''rom_base64''\<rparr>)"
  have g: "getItem (localStorage ?s1) ''rom_base64'' = None"
    by (simp add: getItem_removeItem)
  have r: "changeFileName_resume backend_set fileBytes s = updateFileButton ?s1"
    using assms by (simp add: changeFileName_resume_def Let_def)
  have d: "''text-danger'' \<in> statusIcon_classList ?s1"
    by (simp add: updateStatusMessage_def Let_def)
  show ?thesis
    unfolding r updateFileButton_absent [OF g] using g d by simp
qed

lemma resume_other:
  assumes "setItem backend_set (localStorage s) ''rom_base64'' (bytesToBase64 fileBytes) = (Some e, b)"
    and "\<not> is_quota_exceeded e"
  shows "changeFileName_resume backend_set fileBytes s = Threw e (s\<lparr>localStorage := b\<rparr>)"
  using assms by (simp add: changeFileName_resume_def Let_def)

text \<open>
  Claim C7. When a newly selected image is stored and the store's set operation fails
  with the capacity-exceeded condition, then afterwards the store holds no record under
  the image key, whatever the failed operation left behind, and the handler returns
  with the failure shown as a status message; any other error from the set operation
  is not caught and leaves the handler.
\<close>

theorem changeFileName_quota:
  "(fst (setItem backend_set (localStorage s) ''rom_base64'' (bytesToBase64 fileBytes)) = Some e \<and>
      is_quota_exceeded e \<longrightarrow>
      (\<exists>s'. changeFileName_resume backend_set fileBytes s = Returned s' \<and>
         getItem (localStorage s') ''rom_base64'' = None \<and>
         statusMessage_innerText s' = ''Could not store ROM: localStorage quota exceeded'' \<and>
         ''text-danger'' \<in> statusIcon_classList s') \<and>
      (\<exists>s'. changeFileName backend_set (fileBytes # files) s = Returned s' \<and>
         getItem (localStorage s') ''rom_base64'' = None \<and>
         statusMessage_innerText s' = ''Could not store ROM: localStorage quota exceeded'' \<and>
         ''text-danger'' \<in> statusIcon_classList s')) \<and>
   (fst (setItem backend_set (localStorage s) ''rom_base64'' (bytesToBase64 fileBytes)) = Some e \<and>
      \<not> is_quota_exceeded e \<longrightarrow>
      (\<exists>s'. changeFileName_resume backend_set fileBytes s = Threw e s') \<and>
      (\<exists>s'. changeFileName backend_set (fileBytes # files) s = Threw e s'))"
proof (intro conjI impI)
  assume a: "fst (setItem backend_set (localStorage s) ''rom_base64'' (bytesToBase64 fileBytes)) = Some e \<and>
      is_quota_exceeded e"
  then obtain b where
    b: "setItem backend_set (localStorage s) ''rom_base64'' (bytesToBase64 fileBytes) = (Some e, b)"
    by (cases "setItem backend_set (localStorage s) ''rom_base64'' (bytesToBase64 fileBytes)") simp
  from resume_quota [OF b] a
  show "\<exists>s'. changeFileName_resume backend_set fileBytes s = Returned s' \<and>
         getItem (localStorage s') ''rom_base64'' = None \<and>
         statusMessage_innerText s' = ''Could not store ROM: localStorage quota exceeded'' \<and>
         ''text-danger'' \<in> statusIcon_classList s'"
    by blast
  let ?s0 = "updateStatusMessage [] [] s"
  have b0: "setItem backend_set (localStorage ?s0) ''rom_base64'' (bytesToBase64 fileBytes) = (Some e, b)"
    using b by simp
  from resume_quota [OF b0] a
  show "\<exists>s'. changeFileName backend_set (fileBytes # files) s = Returned s' \<and>
         getItem (localStorage s') ''rom_base64'' = None \<and>
         statusMessage_innerText s' = ''Could not store ROM: localStorage quota exceeded'' \<and>
         ''text-danger'' \<in> statusIcon_classList s'"
    by (simp add: changeFileName_def Let_def) blast
next
  assume a: "fst (setItem backend_set (localStorage s) ''rom_base64'' (bytesToBase64 fileBytes)) = Some e \<and>
      \<not> is_quota_exceeded e"
  then obtain b where
    b: "setItem backend_set (localStorage s) ''rom_base64'' (bytesToBase64 fileBytes) = (Some e, b)"
    by (cases "setItem backend_set (localStorage s) ''rom_base64'' (bytesToBase64 fileBytes)") simp
  from resume_other [OF b] a
  show "\<exists>s'. changeFileName_resume backend_set fileBytes s = Threw e s'" by simp
  let ?s0 = "updateStatusMessage [] [] s"
  have b0: "setItem backend_set (localStorage ?s0) ''rom_base64'' (bytesToBase64 fileBytes) = (Some e, b)"
    using b by simp
  from resume_other [OF b0] a
  show "\<exists>s'. changeFileName backend_set (fileBytes # files) s = Threw e s'"
    by (simp add: changeFileName_def Let_def)
qed


theorem changeFileName_quota_witness:
  "(\<exists>s'. changeFileName (quota_backend 3) [[1, 2, 3]] (with_record sample_rom) = Returned s' \<and>
      getItem (localStorage s') ''rom_base64'' = None \<and>
      statusMessage_innerText s' = ''Could not store ROM: localStorage quota exceeded'') \<and>
   (\<exists>s'. changeFileName (throwing_backend (OtherError ''SecurityError'')) [[1, 2, 3]] page0 =
      Threw (OtherError ''SecurityError'') s')"
proof
  have "fst (setItem (quota_backend 3) (localStorage (with_record sample_rom)) ''rom_base64''
          (bytesToBase64 [1, 2, 3])) = Some (DOMException ''QuotaExceededError'') \<and>
        is_quota_exceeded (DOMException ''QuotaExceededError'')"
    by (simp add: setItem_def quota_backend_def bytesToBase64_eq is_quota_exceeded_def)
  with changeFileName_quota [of "quota_backend 3" "with_record sample_rom" "[1, 2, 3]"
      "DOMException ''QuotaExceededError''" "[]"]
  show "\<exists>s'. changeFileName (quota_backend 3) [[1, 2, 3]] (with_record sample_rom) = Returned s' \<and>
      getItem (localStorage s') ''rom_base64'' = None \<and>
      statusMessage_innerText s' = ''Could not store ROM: localStorage quota exceeded''"
    by blast
  have "fst (setItem (throwing_backend (OtherError ''SecurityError'')) (localStorage page0)
          ''rom_base64'' (bytesToBase64 [1, 2, 3])) = Some (OtherError ''SecurityError'') \<and>
        \<not> is_quota_exceeded (OtherError ''SecurityError'')"
    by (simp add: setItem_def throwing_backend_def is_quota_exceeded_def)
  with changeFileName_quota [of "throwing_backend (OtherError ''SecurityError'')" page0 "[1, 2, 3]"
      "OtherError ''SecurityError''" "[]"]
  show "\<exists>s'. changeFileName (throwing_backend (OtherError ''SecurityError'')) [[1, 2, 3]] page0 =
      Threw (OtherError ''SecurityError'') s'"
    by blast
qed

subsection \<open>Fresh seeds\<close>

lemma is_digit_digit_char: "d < 10 \<Longrightarrow> is_digit (digit_char d)"
  by (simp add: is_digit_def digit_char_def)

lemma decimal_digits_all_digits:
  "decimal_digits n \<noteq> [] \<and> list_all is_digit (decimal_digits n)"
proof (induction n rule: decimal_digits.induct)
  case (1 n)
  show ?case
  proof (cases "n < 10")
    case True
    then show ?thesis
      by (subst (1 2) decimal_digits.simps) (simp add: is_digit_digit_char)
  next
    case False
    with 1 show ?thesis
      by (subst (1 2) decimal_digits.simps) (simp add: is_digit_digit_char)
  qed
qed

lemma dropWhile_none: "\<forall>c\<in>set s. \<not> P c \<Longrightarrow> dropWhile P s = s"
  by (cases s) simp_all

lemma trim_digits:
  assumes "list_all is_digit s"
  shows "trim s = s"
proof -
  have "\<forall>c\<in>set s. \<not> is_js_whitespace c"
    using assms by (auto simp add: list_all_iff is_digit_def is_js_whitespace_def)
  then show ?thesis
    by (simp add: trim_def dropWhile_none)
qed

lemma Math_trunc_nonneg: "0 \<le> x \<Longrightarrow> Math_trunc x = \<lfloor>x\<rfloor>"
  by (simp add: Math_trunc_def)

lemma Math_trunc_range:
  assumes "0 \<le> r" and "r < 1"
  shows "0 \<le> Math_trunc (r * 2 ^ 32) \<and> Math_trunc (r * 2 ^ 32) \<le> 2 ^ 32 - 1"
proof -
  define x where "x = r * 2 ^ 32"
  from assms(1) have nn: "0 \<le> x" by (simp add: x_def)
  from assms(2) have "x < 2 ^ 32" by (simp add: x_def)
  then have "\<lfloor>x\<rfloor> < 2 ^ 32" by (simp add: floor_less_iff)
  with nn have "0 \<le> Math_trunc x \<and> Math_trunc x \<le> 2 ^ 32 - 1"
    by (simp add: Math_trunc_nonneg)
  then show ?thesis by (simp only: x_def)
qed

lemma generate_message_cases:
  "integerRegex_test (trim (seed_value s)) \<Longrightarrow>
   statusMessage_innerText (state_of (generate s)) \<in>
     {''No ROM selected'', [], ''Invalid ROM selected'',
      ''Generation in progress, this may take some time...''}"
  by (simp add: generate_def Let_def split: option.splits)

text \<open>
  Claim C10. The "new seed" operation always produces a seed that the submission check
  accepts: for every random value \<open>r\<close> in \<open>[0, 1)\<close> the seed
  \<open>Math.trunc(r * 2^32)\<close> is an integer in \<open>0 .. 2^32 - 1\<close>, its decimal text
  matches \<^verbatim>\<open>^[0-9]+$\<close>, and a following \<open>generate\<close> does not answer \<open>Seed must
  be a number\<close>.
\<close>

theorem newSeed_accepted:
  "0 \<le> r \<and> r < 1 \<longrightarrow>
     0 \<le> Math_trunc (r * 2 ^ 32) \<and> Math_trunc (r * 2 ^ 32) \<le> 2 ^ 32 - 1 \<and>
     seed_value (newSeed r s) = decimal_digits (nat (Math_trunc (r * 2 ^ 32))) \<and>
     integerRegex_test (trim (seed_value (newSeed r s))) \<and>
     statusMessage_innerText (state_of (generate (newSeed r s))) \<noteq> ''Seed must be a number''"
proof
  assume a: "0 \<le> r \<and> r < 1"
  let ?n = "Math_trunc (r * 2 ^ 32)"
  from a have range: "0 \<le> ?n" "?n \<le> 2 ^ 32 - 1"
    using Math_trunc_range [of r] by blast+
  then have v: "seed_value (newSeed r s) = decimal_digits (nat ?n)"
    unfolding newSeed_def Let_def Number_toString_def by simp
  have ok: "integerRegex_test (trim (seed_value (newSeed r s)))"
    unfolding v using decimal_digits_all_digits [of "nat ?n"]
    by (simp add: trim_digits integerRegex_test_def)
  have "statusMessage_innerText (state_of (generate (newSeed r s))) \<noteq> ''Seed must be a number''"
    using generate_message_cases [OF ok] by auto
  with range v ok
  show "0 \<le> ?n \<and> ?n \<le> 2 ^ 32 - 1 \<and>
     seed_value (newSeed r s) = decimal_digits (nat ?n) \<and>
     integerRegex_test (trim (seed_value (newSeed r s))) \<and>
     statusMessage_innerText (state_of (generate (newSeed r s))) \<noteq> ''Seed must be a number''"
    by blast
qed

theorem newSeed_accepted_witness:
  "(0::real) \<le> 1 / 2 \<and> (1::real) / 2 < 1 \<and> Math_trunc (1 / 2 * 2 ^ 32) = 2147483648 \<and>
   integerRegex_test (trim (seed_value (newSeed (1 / 2) page0)))"
proof -
  have h: "(0::real) \<le> 1 / 2 \<and> (1::real) / 2 < 1" by simp
  have m: "Math_trunc (1 / 2 * 2 ^ 32) = 2147483648" by (simp add: Math_trunc_def)
  from newSeed_accepted [of "1 / 2" page0] h
  have "integerRegex_test (trim (seed_value (newSeed (1 / 2) page0)))" by blast
  with h m show ?thesis by blast
qed

end
